theory Spec2Isabelle
  imports Main "HOL-Library.Sublist"
begin

section \<open>Strings and the built-in string operations the widget calls\<close>

text \<open>
  A JavaScript string is a sequence of 16-bit code units. The model works on strings whose
  code units lie in U+0000..U+00FF, so that a code unit is a \<^typ>\<open>char\<close> and a string is a
  \<^typ>\<open>string\<close>. On that range \<^verbatim>\<open>String.prototype.toLowerCase\<close> maps code unit by code unit:
  A..Z and the upper-case letters of the Latin-1 supplement (U+00C0..U+00DE without the
  multiplication sign U+00D7) move up by 32, everything else stays.
\<close>

definition lowerChar :: "char \<Rightarrow> char" where
  "lowerChar c =
     (let n = (of_char c :: nat)
      in if (65 \<le> n \<and> n \<le> 90) \<or> (192 \<le> n \<and> n \<le> 222 \<and> n \<noteq> 215)
         then char_of (n + 32) else c)"

definition toLowerCase :: "string \<Rightarrow> string" where
  "toLowerCase s = map lowerChar s"

text \<open>\<^verbatim>\<open>s.replace(/ /g, "")\<close>: every space (U+0020) is removed.\<close>

definition stripSpaces :: "string \<Rightarrow> string" where
  "stripSpaces s = filter (\<lambda>c. c \<noteq> CHR '' '') s"

text \<open>
  \<^verbatim>\<open>s.includes(q)\<close>: some position of \<open>s\<close> (the end included) starts an occurrence
  of \<open>q\<close>.
\<close>

primrec includesStr :: "string \<Rightarrow> string \<Rightarrow> bool" where
  "includesStr [] q = (q = [])"
| "includesStr (c # cs) q = (prefix q (c # cs) \<or> includesStr cs q)"

text \<open>
  \<^verbatim>\<open>s.trim()\<close> removes white space and line terminators from both ends; in the range
  of the model these are U+0009..U+000D, U+0020 and U+00A0.
\<close>

definition isWhiteSpace :: "char \<Rightarrow> bool" where
  "isWhiteSpace c =
     (let n = (of_char c :: nat) in (9 \<le> n \<and> n \<le> 13) \<or> n = 32 \<or> n = 160)"

definition trim :: "string \<Rightarrow> string" where
  "trim s = rev (dropWhile isWhiteSpace (rev (dropWhile isWhiteSpace s)))"

section \<open>Taxi.Query\<close>

text \<open>
  What a query hands back to \<^verbatim>\<open>Array.prototype.filter\<close>: \<^verbatim>\<open>strict\<close> returns a
  boolean, \<^verbatim>\<open>fuzzy\<close> a string or, falling off its end, \<^verbatim>\<open>undefined\<close>.
\<close>

datatype jsval = JBool bool | JString string | JUndefined

fun truthy :: "jsval \<Rightarrow> bool" where
  "truthy (JBool b) = b"
| "truthy (JString s) = (s \<noteq> [])"
| "truthy JUndefined = False"

definition strict :: "string \<Rightarrow> string \<Rightarrow> jsval" where
  "strict record query = JBool (includesStr (toLowerCase record) (toLowerCase query))"

text \<open>
  The \<^verbatim>\<open>for\<close> loop of \<^verbatim>\<open>fuzzy\<close>, from \<open>number\<close> on. \<^verbatim>\<open>record[number]\<close> is
  \<^verbatim>\<open>undefined\<close> (here \<open>None\<close>) beyond the record's length.
\<close>

function fuzzyLoop ::
  "string \<Rightarrow> string \<Rightarrow> string \<Rightarrow> nat \<Rightarrow> nat \<Rightarrow> char option list \<Rightarrow> nat \<times> char option list"
where
  "fuzzyLoop record recordLowerCase query number searchPosition match =
     (if number < length recordLowerCase then
        let recordChar = (if number < length record then Some (record ! number) else None);
            searchPosition' =
              (if searchPosition < length query \<and>
                  recordLowerCase ! number = query ! searchPosition
               then searchPosition + 1 else searchPosition)
        in fuzzyLoop record recordLowerCase query (number + 1) searchPosition'
             (match @ [recordChar])
      else (searchPosition, match))"
  by pat_completeness auto
termination
  by (relation "measure (\<lambda>(r, rl, q, n, sp, m). length rl - n)") auto

declare fuzzyLoop.simps [simp del]

text \<open>\<^verbatim>\<open>match.join("")\<close>: an \<^verbatim>\<open>undefined\<close> element contributes the empty string.\<close>

definition joinEmpty :: "char option list \<Rightarrow> string" where
  "joinEmpty match = concat (map (\<lambda>x. case x of None \<Rightarrow> [] | Some c \<Rightarrow> [c]) match)"

definition fuzzy :: "string \<Rightarrow> string \<Rightarrow> jsval" where
  "fuzzy record query =
     (let recordLowerCase = toLowerCase record;
          query' = stripSpaces (toLowerCase query);
          (searchPosition, match) = fuzzyLoop record recordLowerCase query' 0 0 []
      in if searchPosition = length query' then JString (joinEmpty match) else JUndefined)"

section \<open>The document: the input and the display surface\<close>

text \<open>
  An element of the display surface, as far as the widget looks at it: its
  \<^verbatim>\<open>value\<close> attribute (\<open>None\<close> when it has none, \<^verbatim>\<open>getAttribute\<close> then returns
  \<^verbatim>\<open>null\<close>), its \<^verbatim>\<open>classList\<close> and its child elements.
\<close>

datatype element =
  Element (valueAttr: "string option") (classList: "string list") (children: "element list")

text \<open>
  The widget object with the two elements it is bound to: \<open>inputValue\<close> is
  \<^verbatim>\<open>this.input.value\<close> (the handlers are listeners of the input, so it is
  \<^verbatim>\<open>e.target.value\<close> too) and \<open>taxi\<close> is \<^verbatim>\<open>this.taxi.children\<close>, the RenderedList.
  Text nodes are left out: the widget never looks at them. The dataset is a list of
  strings.
\<close>

record widget =
  inputValue :: string
  taxi :: "element list"

record options =
  data :: "string list"
  query :: "string \<Rightarrow> string \<Rightarrow> jsval"
  toHtml :: "string \<Rightarrow> string"
  minChar :: int

datatype error = TypeError

definition isSelected :: string where
  "isSelected = ''is-selected''"

text \<open>\<^verbatim>\<open>classList.toggle(token)\<close>: removes the token when present, appends it otherwise.\<close>

definition toggle :: "string \<Rightarrow> string list \<Rightarrow> string list" where
  "toggle tok cl = (if tok \<in> set cl then removeAll tok cl else cl @ [tok])"

fun toggleClass :: "string \<Rightarrow> element \<Rightarrow> element" where
  "toggleClass tok (Element v cl ks) = Element v (toggle tok cl) ks"

text \<open>
  \<^verbatim>\<open>querySelector(".is-selected")\<close> returns the first descendant, in document order,
  whose class list holds the token. The model names an element by its path (the child
  indices from the display surface down), so that \<^verbatim>\<open>indexOf\<close>, which compares objects by
  identity, can tell a rendered item from an equal-looking element elsewhere.
\<close>

fun firstIndexed :: "nat \<Rightarrow> nat list option list \<Rightarrow> nat list option" where
  "firstIndexed i [] = None"
| "firstIndexed i (None # ps) = firstIndexed (Suc i) ps"
| "firstIndexed i (Some p # ps) = Some (i # p)"

fun firstMatch :: "element \<Rightarrow> nat list option" where
  "firstMatch (Element v cl ks) =
     (if isSelected \<in> set cl then Some [] else firstIndexed 0 (map firstMatch ks))"

definition querySelector :: "element list \<Rightarrow> nat list option" where
  "querySelector kids = firstIndexed 0 (map firstMatch kids)"

text \<open>
  \<^verbatim>\<open>querySelectorAll(".is-selected").forEach(i => i.classList.toggle("is-selected"))\<close>:
  every descendant that holds the token has it toggled, once.
\<close>

fun toggleMatching :: "element \<Rightarrow> element" where
  "toggleMatching (Element v cl ks) =
     Element v (if isSelected \<in> set cl then toggle isSelected cl else cl)
       (map toggleMatching ks)"

fun nodeAt :: "element list \<Rightarrow> nat list \<Rightarrow> element option" where
  "nodeAt kids [] = None"
| "nodeAt kids [i] = (if i < length kids then Some (kids ! i) else None)"
| "nodeAt kids (i # p) = (if i < length kids then nodeAt (children (kids ! i)) p else None)"

text \<open>
  \<^verbatim>\<open>[...children].indexOf(selected)\<close>: the position of the selected element among the
  rendered items, -1 when it is \<^verbatim>\<open>null\<close> or lies deeper than the items.
\<close>

fun indexOf :: "nat list option \<Rightarrow> int" where
  "indexOf (Some [i]) = int i"
| "indexOf _ = - 1"

text \<open>
  \<^verbatim>\<open>children[k].classList.toggle("is-selected")\<close>: \<^verbatim>\<open>children[k]\<close> is \<^verbatim>\<open>undefined\<close>
  outside \<open>0 \<le> k < length\<close>, and reading \<^verbatim>\<open>classList\<close> of it throws.
\<close>

definition toggleChild :: "int \<Rightarrow> element list \<Rightarrow> error + element list" where
  "toggleChild k kids =
     (if 0 \<le> k \<and> k < int (length kids)
      then Inr (kids[nat k := toggleClass isSelected (kids ! nat k)])
      else Inl TypeError)"

section \<open>The handlers\<close>

definition actionCodes :: "nat list" where
  "actionCodes = [40, 38, 9, 13]"

definition hasMinChar :: "options \<Rightarrow> widget \<Rightarrow> bool" where
  "hasMinChar opts w =
     (if minChar opts = 0 then True
      else if int (length (trim (inputValue w))) \<ge> minChar opts then True
      else False)"

text \<open>\<^verbatim>\<open>this.taxi.innerHTML = ""\<close> leaves the display surface without children.\<close>

definition clearInnerHTML :: "widget \<Rightarrow> widget" where
  "clearInnerHTML w = w\<lparr>taxi := []\<rparr>"

text \<open>
  \<^verbatim>\<open>this.taxi.innerHTML = html\<close>: the browser parses the markup; \<open>parse\<close> stands for its
  fragment parser, giving the child elements.
\<close>

definition setInnerHTML :: "(string \<Rightarrow> element list) \<Rightarrow> string \<Rightarrow> widget \<Rightarrow> widget" where
  "setInnerHTML parse html w = (if html = [] then clearInnerHTML w else w\<lparr>taxi := parse html\<rparr>)"

fun joinWith :: "string \<Rightarrow> string list \<Rightarrow> string" where
  "joinWith sep [] = []"
| "joinWith sep [x] = x"
| "joinWith sep (x # xs) = x @ sep @ joinWith sep xs"

text \<open>\<^verbatim>\<open>copy.filter(entry => this.options.query(entry, value))\<close> of \<^verbatim>\<open>handleKeyUp\<close>.\<close>

definition filtered :: "options \<Rightarrow> string \<Rightarrow> string list" where
  "filtered opts value = filter (\<lambda>entry. truthy (query opts entry value)) (data opts)"

definition handleKeyUp :: "(string \<Rightarrow> element list) \<Rightarrow> options \<Rightarrow> nat \<Rightarrow> widget \<Rightarrow> widget" where
  "handleKeyUp parse opts which w =
     (if \<not> hasMinChar opts w then clearInnerHTML w
      else if which \<in> set actionCodes then w
      else
        let html = joinWith [CHR 0x0A] (map (toHtml opts) (filtered opts (inputValue w)))
        in setInnerHTML parse html w)"

text \<open>
  The two indices \<^verbatim>\<open>handleKeyDown\<close> computes from \<^verbatim>\<open>current\<close> and the number
  \<^verbatim>\<open>max\<close> of rendered items:
  \<^verbatim>\<open>next = current + 1 < max ? current + 1 : current\<close> and
  \<^verbatim>\<open>prev = current - 1 > 0 ? current - 1 : 0\<close>.
\<close>

definition nextIndex :: "int \<Rightarrow> int \<Rightarrow> int" where
  "nextIndex current max' = (if current + 1 < max' then current + 1 else current)"

definition prevIndex :: "int \<Rightarrow> int" where
  "prevIndex current = (if current - 1 > 0 then current - 1 else 0)"

text \<open>
  \<^verbatim>\<open>handleKeyDown\<close> of \<^verbatim>\<open>dist/js/Taxi.js\<close>, in two parts. A handler call returns
  \<open>Inr\<close> the document it leaves, or \<open>Inl\<close> the exception it throws together with the
  document as it is at that moment.

  \<open>selectionController\<close> is the body of the handler after its two guards and
  \<^verbatim>\<open>e.preventDefault()\<close>, from \<^verbatim>\<open>const children = this.taxi.children\<close> to the end of the
  \<^verbatim>\<open>switch\<close>; the specification calls this part the SelectionController. The element
  \<^verbatim>\<open>selected\<close> comes from \<^verbatim>\<open>querySelector\<close>, so \<open>nodeAt\<close> finds it (lemma
  \<open>nodeAt_selected\<close> below); \<^verbatim>\<open>input.value = null\<close> stores the empty string.
  \<^verbatim>\<open>e.preventDefault()\<close> changes nothing in the document and is left out.
\<close>

definition selectionController :: "nat \<Rightarrow> widget \<Rightarrow> error \<times> widget + widget" where
  "selectionController which w =
     (let max' = int (length (taxi w));
          selected = querySelector (taxi w);
          cleaned = map toggleMatching (taxi w);
          w1 = w\<lparr>taxi := cleaned\<rparr>;
          current = indexOf selected;
          next = nextIndex current max';
          prev = prevIndex current
      in if which = 40 then
           (case toggleChild next cleaned of
              Inl err \<Rightarrow> Inl (err, w1) | Inr kids \<Rightarrow> Inr (w1\<lparr>taxi := kids\<rparr>))
         else if which = 38 then
           (case toggleChild prev cleaned of
              Inl err \<Rightarrow> Inl (err, w1) | Inr kids \<Rightarrow> Inr (w1\<lparr>taxi := kids\<rparr>))
         else if which = 9 then
           (case toggleChild next cleaned of
              Inl err \<Rightarrow> Inl (err, w1) | Inr kids \<Rightarrow> Inr (w1\<lparr>taxi := kids\<rparr>))
         else if which = 13 then
           (case selected of
              None \<Rightarrow> Inr w1
            | Some p \<Rightarrow>
                (case nodeAt cleaned p of
                   None \<Rightarrow> Inl (TypeError, w1)
                 | Some el \<Rightarrow>
                     Inr (clearInnerHTML
                            (w1\<lparr>inputValue :=
                                  (case valueAttr el of None \<Rightarrow> [] | Some v \<Rightarrow> v)\<rparr>))))
         else Inr w1)"

text \<open>
  The handler itself: the minimum-length check, the check of the key code against
  \<^verbatim>\<open>actionCodes\<close>, then the part above.
\<close>

definition handleKeyDown :: "options \<Rightarrow> nat \<Rightarrow> widget \<Rightarrow> error \<times> widget + widget" where
  "handleKeyDown opts which w =
     (if \<not> hasMinChar opts w then Inr (clearInnerHTML w)
      else if which \<notin> set actionCodes then Inr w
      else selectionController which w)"

text \<open>
  \<^verbatim>\<open>handleKeyDown\<close> of the class-syntax source file: it asks \<^verbatim>\<open>KeyHandler.has\<close> first,
  checks the minimum length next and hands the event to \<^verbatim>\<open>KeyHandler.handle\<close>. The
  two functions live in the module \<^verbatim>\<open>./keyPress\<close> and are parameters here.
\<close>

definition handleKeyDownKeyHandler ::
  "(nat \<Rightarrow> bool) \<Rightarrow> (nat \<Rightarrow> widget \<Rightarrow> error \<times> widget + widget) \<Rightarrow>
   options \<Rightarrow> nat \<Rightarrow> widget \<Rightarrow> error \<times> widget + widget" where
  "handleKeyDownKeyHandler has handle opts which w =
     (if \<not> has which then Inr w
      else if \<not> hasMinChar opts w then Inr (clearInnerHTML w)
      else handle which w)"

text \<open>
  A run of keydown events, one handler call after the other, up to the first call that
  throws.
\<close>

fun keyDowns :: "options \<Rightarrow> nat list \<Rightarrow> widget \<Rightarrow> error \<times> widget + widget" where
  "keyDowns opts [] w = Inr w"
| "keyDowns opts (k # ks) w =
     (case handleKeyDown opts k w of Inl ew \<Rightarrow> Inl ew | Inr w' \<Rightarrow> keyDowns opts ks w')"

text \<open>The same run given to the selection controller directly.\<close>

fun selections :: "nat list \<Rightarrow> widget \<Rightarrow> error \<times> widget + widget" where
  "selections [] w = Inr w"
| "selections (k # ks) w =
     (case selectionController k w of Inl ew \<Rightarrow> Inl ew | Inr w' \<Rightarrow> selections ks w')"

text \<open>The document a handler call leaves, whether it returned or threw.\<close>

fun documentAfter :: "error \<times> widget + widget \<Rightarrow> widget" where
  "documentAfter (Inl (err, w)) = w"
| "documentAfter (Inr w) = w"

section \<open>Built-in formatter and default options\<close>

definition classic :: "string \<Rightarrow> string" where
  "classic entry =
     ''<div class='' @ [CHR 0x22] @ ''taxi-card'' @ [CHR 0x22] @ '' value='' @ [CHR 0x22] @
     entry @ [CHR 0x22] @ ''>'' @ [CHR 0x0A] @
     ''        <strong>'' @ entry @ ''</strong>'' @ [CHR 0x0A] @
     ''      </div>''"

definition TaxiOptionsDefaults :: options where
  "TaxiOptionsDefaults =
     \<lparr>data = [''Volkwagen'', ''Mercedes'', ''Daimler''],
      query = strict, toHtml = classic, minChar = 1\<rparr>"

section \<open>The selection state of the specification\<close>

text \<open>
  \<open>Idle\<close>: no element of the display surface carries the marker. \<open>Highlighted i\<close>: the
  element \<^verbatim>\<open>querySelector\<close> finds is the rendered item \<open>i\<close>. The rendered items
  that carry the marker are \<open>selectedItems\<close>; \<open>countMatching\<close> counts the marker
  through a whole subtree.
\<close>

definition Idle :: "widget \<Rightarrow> bool" where
  "Idle w = (querySelector (taxi w) = None)"

definition Highlighted :: "nat \<Rightarrow> widget \<Rightarrow> bool" where
  "Highlighted i w = (querySelector (taxi w) = Some [i])"

definition selectedItems :: "element list \<Rightarrow> element list" where
  "selectedItems kids = filter (\<lambda>e. isSelected \<in> set (classList e)) kids"

fun countMatching :: "element \<Rightarrow> nat" where
  "countMatching (Element v cl ks) =
     (if isSelected \<in> set cl then 1 else 0) + sum_list (map countMatching ks)"

section \<open>Example documents\<close>

text \<open>
  A card as the browser builds it from what \<^verbatim>\<open>classic\<close> returns: a \<^verbatim>\<open>div\<close> of class
  \<^verbatim>\<open>taxi-card\<close> carrying the entry as its \<^verbatim>\<open>value\<close>, with one \<^verbatim>\<open>strong\<close> child.
  \<open>exampleCards\<close> are the cards of the three default entries, \<open>exampleWidget\<close> shows
  them with nothing highlighted, \<open>highlightedWidget i\<close> with card \<open>i\<close> highlighted,
  \<open>allMarkedWidget\<close> with the marker on every card, \<open>shortInputWidget\<close> shows them
  while the input holds two characters only, and \<open>emptyWidget\<close> shows no card at all.
\<close>

definition card :: "string \<Rightarrow> element" where
  "card entry = Element (Some entry) [''taxi-card''] [Element None [] []]"

definition exampleCards :: "element list" where
  "exampleCards = map card [''Volkwagen'', ''Mercedes'', ''Daimler'']"

definition exampleWidget :: widget where
  "exampleWidget = \<lparr>inputValue = ''e'', taxi = exampleCards\<rparr>"

definition highlightedWidget :: "nat \<Rightarrow> widget" where
  "highlightedWidget i =
     \<lparr>inputValue = ''e'',
      taxi = exampleCards[i := toggleClass isSelected (exampleCards ! i)]\<rparr>"

definition allMarkedWidget :: widget where
  "allMarkedWidget = \<lparr>inputValue = ''e'', taxi = map (toggleClass isSelected) exampleCards\<rparr>"

definition shortInputWidget :: widget where
  "shortInputWidget = \<lparr>inputValue = ''ab'', taxi = exampleCards\<rparr>"

definition emptyWidget :: widget where
  "emptyWidget = \<lparr>inputValue = ''e'', taxi = []\<rparr>"

section \<open>Facts about the display surface\<close>

subsection \<open>Finding the first marked element\<close>

lemma firstIndexed_None_iff: "firstIndexed i ps = None \<longleftrightarrow> (\<forall>p \<in> set ps. p = None)"
  by (induction i ps rule: firstIndexed.induct) auto

lemma firstIndexed_Some_nth:
  "j < length ps \<Longrightarrow> ps ! j = Some p \<Longrightarrow> (\<forall>k<j. ps ! k = None) \<Longrightarrow>
   firstIndexed i ps = Some ((i + j) # p)"
proof (induction i ps arbitrary: j rule: firstIndexed.induct)
  case (1 i)
  then show ?case by simp
next
  case (2 i ps)
  then obtain j' where j: "j = Suc j'" by (cases j) auto
  with 2 have "firstIndexed (Suc i) ps = Some ((Suc i + j') # p)"
    by (intro "2.IH") auto
  with j show ?case by simp
next
  case (3 i q ps)
  then have "j = 0" by (cases j) auto
  with 3 show ?case by simp
qed

lemma firstIndexed_SomeD:
  "firstIndexed i ps = Some q \<Longrightarrow>
   \<exists>j p. q = (i + j) # p \<and> j < length ps \<and> ps ! j = Some p \<and> (\<forall>k<j. ps ! k = None)"
proof (induction i ps rule: firstIndexed.induct)
  case (1 i)
  then show ?case by simp
next
  case (2 i ps)
  then obtain j p where "q = (Suc i + j) # p" "j < length ps" "ps ! j = Some p" "\<forall>k<j. ps ! k = None"
    by auto
  then have "q = (i + Suc j) # p \<and> Suc j < length (None # ps) \<and> (None # ps) ! Suc j = Some p
     \<and> (\<forall>k<Suc j. (None # ps) ! k = None)"
    by (auto simp: nth_Cons split: nat.splits)
  then show ?case by blast
next
  case (3 i q' ps)
  then have "q = (i + 0) # q' \<and> 0 < length (Some q' # ps) \<and> (Some q' # ps) ! 0 = Some q' \<and> (\<forall>k<0. (Some q' # ps) ! k = None)"
    by auto
  then show ?case by blast
qed

subsection \<open>Toggling the marker\<close>

lemma toggle_removes: "tok \<in> set cl \<Longrightarrow> tok \<notin> set (toggle tok cl)"
  by (simp add: toggle_def)

lemma toggle_adds: "tok \<notin> set cl \<Longrightarrow> tok \<in> set (toggle tok cl)"
  by (simp add: toggle_def)

lemma firstMatch_toggleMatching: "firstMatch (toggleMatching e) = None"
  by (induction e) (auto simp: firstIndexed_None_iff toggle_removes)

lemma toggleMatching_id: "firstMatch e = None \<Longrightarrow> toggleMatching e = e"
  by (induction e) (auto simp: firstIndexed_None_iff map_idI split: if_splits)

lemma querySelector_cleaned: "querySelector (map toggleMatching kids) = None"
  by (simp add: querySelector_def firstIndexed_None_iff firstMatch_toggleMatching)

lemma cleaned_id: "querySelector kids = None \<Longrightarrow> map toggleMatching kids = kids"
  by (simp add: querySelector_def firstIndexed_None_iff map_idI toggleMatching_id)

lemma firstMatch_toggleClass:
  "firstMatch e = None \<Longrightarrow> firstMatch (toggleClass isSelected e) = Some []"
  by (cases e) (auto simp: toggle_adds split: if_splits)

lemma querySelector_toggled:
  assumes "\<forall>e \<in> set kids. firstMatch e = None" and "k < length kids"
  shows "querySelector (kids[k := toggleClass isSelected (kids ! k)]) = Some [k]"
proof -
  let ?ps = "map firstMatch (kids[k := toggleClass isSelected (kids ! k)])"
  have "k < length ?ps" using assms by simp
  moreover have "?ps ! k = Some []"
    using assms by (simp add: firstMatch_toggleClass)
  moreover have "\<forall>j<k. ?ps ! j = None"
    using assms by simp
  ultimately have "firstIndexed 0 ?ps = Some ((0 + k) # [])"
    by (rule firstIndexed_Some_nth)
  then show ?thesis by (simp add: querySelector_def)
qed

lemma querySelector_bound: "querySelector kids = Some (i # p) \<Longrightarrow> i < length kids"
  by (auto simp: querySelector_def dest: firstIndexed_SomeD)

lemma querySelector_nonempty: "querySelector kids \<noteq> Some []"
  by (auto simp: querySelector_def dest: firstIndexed_SomeD)

lemma indexOf_bounds:
  "- 1 \<le> indexOf (querySelector kids) \<and> indexOf (querySelector kids) < int (length kids)"
proof (cases "querySelector kids")
  case None
  then show ?thesis by simp
next
  case (Some q)
  show ?thesis
  proof (cases q)
    case Nil
    with Some show ?thesis by simp
  next
    case (Cons i p)
    with Some have "i < length kids" by (simp add: querySelector_bound)
    with Some Cons show ?thesis by (cases p) auto
  qed
qed

lemma cleaned_toggled_Highlighted:
  "k < length kids \<Longrightarrow>
   querySelector ((map toggleMatching kids)[k := toggleClass isSelected (map toggleMatching kids ! k)])
     = Some [k]"
  by (rule querySelector_toggled) (auto simp: firstMatch_toggleMatching)

lemma toggleChild_cleaned:
  "0 \<le> k \<Longrightarrow> k < int (length kids) \<Longrightarrow>
   toggleChild k (map toggleMatching kids) =
     Inr ((map toggleMatching kids)[nat k := toggleClass isSelected (map toggleMatching kids ! nat k)])"
  by (simp add: toggleChild_def)

lemma nextIndex_range:
  "- 1 \<le> c \<Longrightarrow> c < m \<Longrightarrow> 0 < m \<Longrightarrow> nextIndex c m = min (c + 1) (m - 1) \<and> 0 \<le> nextIndex c m \<and> nextIndex c m < m"
  by (auto simp: nextIndex_def)

lemma prevIndex_range:
  "- 1 \<le> c \<Longrightarrow> c < m \<Longrightarrow> 0 < m \<Longrightarrow> prevIndex c = max (c - 1) 0 \<and> 0 \<le> prevIndex c \<and> prevIndex c < m"
  by (auto simp: prevIndex_def)

lemma valueAttr_toggleMatching: "valueAttr (toggleMatching e) = valueAttr e"
  by (cases e) simp

lemma valueAttr_toggleClass: "valueAttr (toggleClass tok e) = valueAttr e"
  by (cases e) simp

lemma valueAttr_cleaned_toggled:
  "map valueAttr ((map toggleMatching kids)[k := toggleClass tok (map toggleMatching kids ! k)])
     = map valueAttr kids"
proof (cases "k < length kids")
  case True
  then show ?thesis
    by (simp add: map_update valueAttr_toggleClass valueAttr_toggleMatching list_update_same_conv
        comp_def)
next
  case False
  then show ?thesis by (simp add: valueAttr_toggleMatching comp_def list_update_beyond)
qed

subsection \<open>Counting markers\<close>

lemma countMatching_toggleMatching: "countMatching (toggleMatching e) = 0"
  by (induction e) (auto simp: toggle_removes sum_list_eq_0_iff)

lemma countMatching_toggleClass_le:
  "countMatching e = 0 \<Longrightarrow> countMatching (toggleClass isSelected e) \<le> 1"
  by (cases e) (auto simp del: sum_list_eq_0_iff split: if_splits)

lemma sum_list_update_zero:
  "\<forall>e \<in> set kids. f e = (0::nat) \<Longrightarrow> k < length kids \<Longrightarrow>
   sum_list (map f (kids[k := x])) = f x"
proof (induction kids arbitrary: k)
  case Nil
  then show ?case by simp
next
  case (Cons a kids)
  then show ?case by (cases k) (auto simp: sum_list_eq_0_iff)
qed

lemma selectedItems_le_countMatching:
  "length (selectedItems kids) \<le> sum_list (map countMatching kids)"
proof (induction kids)
  case Nil
  then show ?case by (simp add: selectedItems_def)
next
  case (Cons e kids)
  have "(if isSelected \<in> set (classList e) then 1 else 0) \<le> countMatching e"
    by (cases e) simp
  with Cons show ?case by (auto simp: selectedItems_def)
qed

lemma cleaned_count: "sum_list (map countMatching (map toggleMatching kids)) = 0"
  by (simp add: sum_list_eq_0_iff countMatching_toggleMatching)

lemma toggleChild_cleaned_count:
  assumes "toggleChild k (map toggleMatching kids) = Inr kids'"
  shows "sum_list (map countMatching kids') \<le> 1"
proof -
  let ?cl = "map toggleMatching kids"
  from assms have k: "0 \<le> k" "k < int (length kids)"
    and kids': "kids' = ?cl[nat k := toggleClass isSelected (?cl ! nat k)]"
    by (auto simp: toggleChild_def split: if_splits)
  from k have n: "nat k < length ?cl" by simp
  have z: "\<forall>e \<in> set ?cl. countMatching e = 0"
    by (auto simp: countMatching_toggleMatching)
  then have "countMatching (?cl ! nat k) = 0" using n by (metis nth_mem)
  then have "countMatching (toggleClass isSelected (?cl ! nat k)) \<le> 1"
    by (rule countMatching_toggleClass_le)
  moreover have "sum_list (map countMatching kids') =
      countMatching (toggleClass isSelected (?cl ! nat k))"
    unfolding kids' using z n by (rule sum_list_update_zero)
  ultimately show ?thesis by simp
qed

section \<open>The navigation keys\<close>

text \<open>
  The element \<^verbatim>\<open>querySelector\<close> returns is still there after the clean-up, so the enter
  branch always has an element to read the value from.
\<close>

lemma children_toggleMatching: "children (toggleMatching e) = map toggleMatching (children e)"
  by (cases e) simp

lemma nodeAt_cleaned:
  "nodeAt (map toggleMatching kids) p = map_option toggleMatching (nodeAt kids p)"
  by (induction kids p rule: nodeAt.induct) (simp_all add: children_toggleMatching)

lemma firstMatch_SomeD:
  "firstMatch e = Some (j # p) \<Longrightarrow> querySelector (children e) = Some (j # p)"
  by (cases e) (auto simp: querySelector_def split: if_splits)

lemma nodeAt_querySelector: "querySelector kids = Some q \<Longrightarrow> nodeAt kids q \<noteq> None"
proof (induction q arbitrary: kids)
  case Nil
  then show ?case by (simp add: querySelector_nonempty)
next
  case (Cons j p)
  from Cons.prems obtain j: "j < length kids" and f: "firstMatch (kids ! j) = Some p"
    by (auto simp: querySelector_def dest: firstIndexed_SomeD)
  show ?case
  proof (cases p)
    case Nil
    with j show ?thesis by simp
  next
    case (Cons j' p')
    with f have "querySelector (children (kids ! j)) = Some p"
      by (simp add: firstMatch_SomeD)
    then have "nodeAt (children (kids ! j)) p \<noteq> None" by (rule Cons.IH)
    with j Cons show ?thesis by simp
  qed
qed

lemma nodeAt_selected:
  "querySelector kids = Some q \<Longrightarrow> nodeAt (map toggleMatching kids) q \<noteq> None"
  by (simp add: nodeAt_cleaned nodeAt_querySelector)

lemma handleKeyDown_controller:
  "which \<in> set actionCodes \<Longrightarrow>
   handleKeyDown opts which w =
     (if hasMinChar opts w then selectionController which w else Inr (clearInnerHTML w))"
  by (simp add: handleKeyDown_def)

lemma selectionController_down:
  assumes ne: "taxi w \<noteq> []" and key: "which = 40 \<or> which = 9"
  shows "selectionController which w =
     Inr (w\<lparr>taxi := (map toggleMatching (taxi w))
        [nat (nextIndex (indexOf (querySelector (taxi w))) (int (length (taxi w)))) :=
           toggleClass isSelected (map toggleMatching (taxi w) !
              nat (nextIndex (indexOf (querySelector (taxi w))) (int (length (taxi w)))))]\<rparr>)"
proof -
  let ?n = "nextIndex (indexOf (querySelector (taxi w))) (int (length (taxi w)))"
  have "0 \<le> ?n \<and> ?n < int (length (taxi w))"
    using nextIndex_range [of "indexOf (querySelector (taxi w))" "int (length (taxi w))"]
      indexOf_bounds [of "taxi w"] ne by simp
  then have "toggleChild ?n (map toggleMatching (taxi w)) =
     Inr ((map toggleMatching (taxi w))[nat ?n := toggleClass isSelected (map toggleMatching (taxi w) ! nat ?n)])"
    by (simp add: toggleChild_cleaned)
  then show ?thesis
    using key by (auto simp: selectionController_def Let_def)
qed

lemma selectionController_up:
  assumes ne: "taxi w \<noteq> []"
  shows "selectionController 38 w =
     Inr (w\<lparr>taxi := (map toggleMatching (taxi w))
        [nat (prevIndex (indexOf (querySelector (taxi w)))) :=
           toggleClass isSelected (map toggleMatching (taxi w) !
              nat (prevIndex (indexOf (querySelector (taxi w)))))]\<rparr>)"
proof -
  let ?n = "prevIndex (indexOf (querySelector (taxi w)))"
  have "0 \<le> ?n \<and> ?n < int (length (taxi w))"
    using prevIndex_range [of "indexOf (querySelector (taxi w))" "int (length (taxi w))"]
      indexOf_bounds [of "taxi w"] ne by simp
  then have "toggleChild ?n (map toggleMatching (taxi w)) =
     Inr ((map toggleMatching (taxi w))[nat ?n := toggleClass isSelected (map toggleMatching (taxi w) ! nat ?n)])"
    by (simp add: toggleChild_cleaned)
  then show ?thesis
    by (auto simp: selectionController_def Let_def)
qed

lemma step_next:
  assumes ne: "taxi w \<noteq> []" and key: "which = 40 \<or> which = 9"
  shows "\<exists>w'. selectionController which w = Inr w' \<and>
           inputValue w' = inputValue w \<and>
           map valueAttr (taxi w') = map valueAttr (taxi w) \<and>
           querySelector (taxi w') =
             Some [nat (min (indexOf (querySelector (taxi w)) + 1) (int (length (taxi w)) - 1))]"
proof -
  let ?c = "indexOf (querySelector (taxi w))"
  let ?m = "int (length (taxi w))"
  let ?n = "nextIndex ?c ?m"
  let ?cl = "map toggleMatching (taxi w)"
  let ?w' = "w\<lparr>taxi := ?cl[nat ?n := toggleClass isSelected (?cl ! nat ?n)]\<rparr>"
  have step: "selectionController which w = Inr ?w'"
    using ne key by (rule selectionController_down)
  have rng: "?n = min (?c + 1) (?m - 1) \<and> 0 \<le> ?n \<and> ?n < ?m"
    using nextIndex_range [of ?c ?m] indexOf_bounds [of "taxi w"] ne by simp
  then have "0 \<le> ?n" and "?n < ?m" by blast+
  then have "nat ?n < length (taxi w)" by linarith
  then have "querySelector (?cl[nat ?n := toggleClass isSelected (?cl ! nat ?n)]) = Some [nat ?n]"
    by (rule cleaned_toggled_Highlighted)
  with rng have "querySelector (taxi ?w') = Some [nat (min (?c + 1) (?m - 1))]"
    by simp
  moreover have "map valueAttr (taxi ?w') = map valueAttr (taxi w)"
    by (simp add: valueAttr_cleaned_toggled)
  moreover have "inputValue ?w' = inputValue w" by simp
  ultimately show ?thesis using step by blast
qed

lemma step_prev:
  assumes ne: "taxi w \<noteq> []"
  shows "\<exists>w'. selectionController 38 w = Inr w' \<and>
           inputValue w' = inputValue w \<and>
           map valueAttr (taxi w') = map valueAttr (taxi w) \<and>
           querySelector (taxi w') =
             Some [nat (max (indexOf (querySelector (taxi w)) - 1) 0)]"
proof -
  let ?c = "indexOf (querySelector (taxi w))"
  let ?m = "int (length (taxi w))"
  let ?n = "prevIndex ?c"
  let ?cl = "map toggleMatching (taxi w)"
  let ?w' = "w\<lparr>taxi := ?cl[nat ?n := toggleClass isSelected (?cl ! nat ?n)]\<rparr>"
  have step: "selectionController 38 w = Inr ?w'"
    using ne by (rule selectionController_up)
  have rng: "?n = max (?c - 1) 0 \<and> 0 \<le> ?n \<and> ?n < ?m"
    using prevIndex_range [of ?c ?m] indexOf_bounds [of "taxi w"] ne by simp
  then have "0 \<le> ?n" and "?n < ?m" by blast+
  then have "nat ?n < length (taxi w)" by linarith
  then have "querySelector (?cl[nat ?n := toggleClass isSelected (?cl ! nat ?n)]) = Some [nat ?n]"
    by (rule cleaned_toggled_Highlighted)
  with rng have "querySelector (taxi ?w') = Some [nat (max (?c - 1) 0)]"
    by simp
  moreover have "map valueAttr (taxi ?w') = map valueAttr (taxi w)"
    by (simp add: valueAttr_cleaned_toggled)
  moreover have "inputValue ?w' = inputValue w" by simp
  ultimately show ?thesis using step by blast
qed

lemma Highlighted_nonempty: "Highlighted i w \<Longrightarrow> i < length (taxi w)"
  by (simp add: Highlighted_def querySelector_bound)

lemma hasMinChar_cong: "inputValue w' = inputValue w \<Longrightarrow> hasMinChar opts w' = hasMinChar opts w"
  by (simp add: hasMinChar_def)

section \<open>The selection controller\<close>

text \<open>
  Each navigation claim is stated for \<open>selectionController\<close>, the part of
  \<^verbatim>\<open>handleKeyDown\<close> the claim points at, together with what \<^verbatim>\<open>handleKeyDown\<close> as a whole
  returns: the controller's result when \<open>hasMinChar\<close> holds, the document with an
  emptied display surface otherwise (claim C7).
\<close>

text \<open>
  Claim C1. For every non-empty RenderedList, a down (40) or tab (9) keydown moves the
  highlight from \<open>Highlighted i\<close> to \<open>Highlighted (min (i + 1) last)\<close>, without
  wrapping around; from \<open>Idle\<close> the current index is -1 and the press selects item 0.
  In terms of the index \<^verbatim>\<open>current\<close> the handler computes, the new index is
  \<open>min (current + 1) last\<close>. The input value and the values the items carry stay as
  they are.
\<close>

theorem down_or_tab_moves_highlight:
  assumes ne: "taxi w \<noteq> []" and key: "which = 40 \<or> which = 9"
  shows "\<exists>w'. selectionController which w = Inr w' \<and>
           handleKeyDown opts which w =
             (if hasMinChar opts w then Inr w' else Inr (clearInnerHTML w)) \<and>
           inputValue w' = inputValue w \<and>
           map valueAttr (taxi w') = map valueAttr (taxi w) \<and>
           indexOf (querySelector (taxi w')) =
             min (indexOf (querySelector (taxi w)) + 1) (int (length (taxi w)) - 1) \<and>
           (\<forall>i. Highlighted i w \<longrightarrow> Highlighted (min (i + 1) (length (taxi w) - 1)) w') \<and>
           (Idle w \<longrightarrow> indexOf (querySelector (taxi w)) = - 1 \<and> Highlighted 0 w')"
proof -
  let ?c = "indexOf (querySelector (taxi w))"
  let ?m = "int (length (taxi w))"
  from step_next [OF ne key] obtain w' where
    step: "selectionController which w = Inr w'" and iv: "inputValue w' = inputValue w"
    and va: "map valueAttr (taxi w') = map valueAttr (taxi w)"
    and qs: "querySelector (taxi w') = Some [nat (min (?c + 1) (?m - 1))]"
    by blast
  from key have "which \<in> set actionCodes" by (auto simp: actionCodes_def)
  then have hd: "handleKeyDown opts which w =
      (if hasMinChar opts w then Inr w' else Inr (clearInnerHTML w))"
    by (simp add: handleKeyDown_controller step)
  have "Highlighted (min (i + 1) (length (taxi w) - 1)) w'" if hi: "Highlighted i w" for i
  proof -
    from hi have c: "?c = int i" by (simp add: Highlighted_def)
    from hi have "i < length (taxi w)" by (rule Highlighted_nonempty)
    then have "nat (min (int i + 1) (?m - 1)) = min (i + 1) (length (taxi w) - 1)"
      by linarith
    with qs c show ?thesis by (simp add: Highlighted_def)
  qed
  moreover have "?c = - 1 \<and> Highlighted 0 w'" if "Idle w"
  proof -
    from that have c: "?c = - 1" by (simp add: Idle_def)
    from ne have "0 < length (taxi w)" by simp
    then have "nat (min (- 1 + 1) (?m - 1)) = 0" by simp
    with qs c show ?thesis by (simp add: Highlighted_def)
  qed
  moreover have "indexOf (querySelector (taxi w')) = min (?c + 1) (?m - 1)"
  proof -
    from ne have "0 < ?m" by simp
    moreover have "- 1 \<le> ?c" using indexOf_bounds [of "taxi w"] by simp
    ultimately have "0 \<le> min (?c + 1) (?m - 1)" by simp
    with qs show ?thesis by simp
  qed
  ultimately show ?thesis using step hd iv va by blast
qed

text \<open>
  On the three example cards: down from \<open>Idle\<close> highlights card 0, and tab on the last
  card leaves the last card highlighted.
\<close>

theorem down_or_tab_moves_highlight_witness:
  "taxi exampleWidget \<noteq> [] \<and> Idle exampleWidget \<and>
   (\<exists>w'. handleKeyDown TaxiOptionsDefaults 40 exampleWidget = Inr w' \<and> Highlighted 0 w') \<and>
   Highlighted 2 (highlightedWidget 2) \<and>
   (\<exists>w'. handleKeyDown TaxiOptionsDefaults 9 (highlightedWidget 2) = Inr w' \<and> Highlighted 2 w')"
proof -
  have g: "hasMinChar TaxiOptionsDefaults exampleWidget" by code_simp
  have n: "taxi exampleWidget \<noteq> []" by code_simp
  have i: "Idle exampleWidget" by code_simp
  have g2: "hasMinChar TaxiOptionsDefaults (highlightedWidget 2)" by code_simp
  have n2: "taxi (highlightedWidget 2) \<noteq> []" by code_simp
  have h2: "Highlighted 2 (highlightedWidget 2)" by code_simp
  have l2: "min (2 + 1) (length (taxi (highlightedWidget 2)) - 1) = 2" by code_simp
  from down_or_tab_moves_highlight [OF n, of 40 TaxiOptionsDefaults] i g
  have a: "\<exists>w'. handleKeyDown TaxiOptionsDefaults 40 exampleWidget = Inr w' \<and> Highlighted 0 w'"
    by auto
  from down_or_tab_moves_highlight [OF n2, of 9 TaxiOptionsDefaults] h2 l2 g2
  have b: "\<exists>w'. handleKeyDown TaxiOptionsDefaults 9 (highlightedWidget 2) = Inr w' \<and>
                Highlighted 2 w'"
    by force
  from n i a h2 b show ?thesis by blast
qed

text \<open>
  Claim C2. An up (38) keydown moves the highlight from \<open>Highlighted i\<close> to
  \<open>Highlighted (max (i - 1) 0)\<close>: it stops at item 0, the state is not \<open>Idle\<close>
  afterwards, and at item 0 the highlight stays on item 0. (A list with a highlighted
  item is not empty.)
\<close>

theorem up_moves_highlight:
  assumes hi: "Highlighted i w"
  shows "\<exists>w'. selectionController 38 w = Inr w' \<and>
           handleKeyDown opts 38 w =
             (if hasMinChar opts w then Inr w' else Inr (clearInnerHTML w)) \<and>
           inputValue w' = inputValue w \<and>
           map valueAttr (taxi w') = map valueAttr (taxi w) \<and>
           Highlighted (nat (max (int i - 1) 0)) w' \<and> \<not> Idle w' \<and>
           (i = 0 \<longrightarrow> Highlighted 0 w')"
proof -
  let ?c = "indexOf (querySelector (taxi w))"
  from hi have c: "?c = int i" by (simp add: Highlighted_def)
  from hi have "i < length (taxi w)" by (rule Highlighted_nonempty)
  then have ne: "taxi w \<noteq> []" by auto
  from step_prev [OF ne] obtain w' where
    step: "selectionController 38 w = Inr w'" and iv: "inputValue w' = inputValue w"
    and va: "map valueAttr (taxi w') = map valueAttr (taxi w)"
    and qs: "querySelector (taxi w') = Some [nat (max (?c - 1) 0)]"
    by blast
  have "38 \<in> set actionCodes" by (simp add: actionCodes_def)
  then have hd: "handleKeyDown opts 38 w =
      (if hasMinChar opts w then Inr w' else Inr (clearInnerHTML w))"
    by (simp add: handleKeyDown_controller step)
  from qs c have hl: "Highlighted (nat (max (int i - 1) 0)) w'"
    by (simp add: Highlighted_def)
  then have ni: "\<not> Idle w'" by (simp add: Highlighted_def Idle_def)
  from hl have "Highlighted 0 w'" if "i = 0" using that by simp
  with step hd iv va hl ni show ?thesis by blast
qed

text \<open>Up on card 0 keeps card 0 highlighted; up on card 2 highlights card 1.\<close>

theorem up_moves_highlight_witness:
  "Highlighted 0 (highlightedWidget 0) \<and>
   (\<exists>w'. handleKeyDown TaxiOptionsDefaults 38 (highlightedWidget 0) = Inr w' \<and>
         Highlighted 0 w' \<and> \<not> Idle w') \<and>
   Highlighted 2 (highlightedWidget 2) \<and>
   (\<exists>w'. handleKeyDown TaxiOptionsDefaults 38 (highlightedWidget 2) = Inr w' \<and>
         Highlighted 1 w')"
proof -
  have g0: "hasMinChar TaxiOptionsDefaults (highlightedWidget 0)" by code_simp
  have h0: "Highlighted 0 (highlightedWidget 0)" by code_simp
  have g2: "hasMinChar TaxiOptionsDefaults (highlightedWidget 2)" by code_simp
  have h2: "Highlighted 2 (highlightedWidget 2)" by code_simp
  have m2: "nat (max (int 2 - 1) 0) = 1" by simp
  from up_moves_highlight [OF h0, of TaxiOptionsDefaults] g0
  have a: "\<exists>w'. handleKeyDown TaxiOptionsDefaults 38 (highlightedWidget 0) = Inr w' \<and>
                Highlighted 0 w' \<and> \<not> Idle w'"
    by auto
  from up_moves_highlight [OF h2, of TaxiOptionsDefaults] m2 g2
  have b: "\<exists>w'. handleKeyDown TaxiOptionsDefaults 38 (highlightedWidget 2) = Inr w' \<and>
                Highlighted 1 w'"
    by force
  from h0 a h2 b show ?thesis by blast
qed

text \<open>
  Claim C10. For every non-empty RenderedList, an up (38) keydown in state \<open>Idle\<close>
  leads to \<open>Highlighted 0\<close>: the current index is -1, \<open>current - 1\<close> is -2, which
  \<open>prevIndex\<close> turns into 0; the state does not stay \<open>Idle\<close>.
\<close>

theorem up_from_idle_highlights_first:
  assumes ne: "taxi w \<noteq> []" and idle: "Idle w"
  shows "\<exists>w'. selectionController 38 w = Inr w' \<and>
           handleKeyDown opts 38 w =
             (if hasMinChar opts w then Inr w' else Inr (clearInnerHTML w)) \<and>
           indexOf (querySelector (taxi w)) - 1 = - 2 \<and>
           prevIndex (indexOf (querySelector (taxi w))) = 0 \<and>
           Highlighted 0 w' \<and> \<not> Idle w'"
proof -
  let ?c = "indexOf (querySelector (taxi w))"
  from idle have c: "?c = - 1" by (simp add: Idle_def)
  then have p: "prevIndex ?c = 0" by (simp add: prevIndex_def)
  from step_prev [OF ne] obtain w' where
    step: "selectionController 38 w = Inr w'"
    and qs: "querySelector (taxi w') = Some [nat (max (?c - 1) 0)]"
    by blast
  have "38 \<in> set actionCodes" by (simp add: actionCodes_def)
  then have hd: "handleKeyDown opts 38 w =
      (if hasMinChar opts w then Inr w' else Inr (clearInnerHTML w))"
    by (simp add: handleKeyDown_controller step)
  from qs c have hl: "Highlighted 0 w'" by (simp add: Highlighted_def)
  then have "\<not> Idle w'" by (simp add: Highlighted_def Idle_def)
  with step hd c p hl show ?thesis by auto
qed

text \<open>Up on the three example cards with nothing highlighted.\<close>

theorem up_from_idle_highlights_first_witness:
  "taxi exampleWidget \<noteq> [] \<and> Idle exampleWidget \<and>
   (\<exists>w'. handleKeyDown TaxiOptionsDefaults 38 exampleWidget = Inr w' \<and>
         Highlighted 0 w' \<and> \<not> Idle w')"
proof -
  have g: "hasMinChar TaxiOptionsDefaults exampleWidget" by code_simp
  have n: "taxi exampleWidget \<noteq> []" by code_simp
  have i: "Idle exampleWidget" by code_simp
  from up_from_idle_highlights_first [OF n i, of TaxiOptionsDefaults] g
  have "\<exists>w'. handleKeyDown TaxiOptionsDefaults 38 exampleWidget = Inr w' \<and>
             Highlighted 0 w' \<and> \<not> Idle w'"
    by auto
  with n i show ?thesis by blast
qed

text \<open>
  Claim C3. An enter (13) keydown in state \<open>Idle\<close> changes nothing: the controller
  returns with the input value and the display surface as they were. In state
  \<open>Highlighted i\<close> it writes the \<^verbatim>\<open>value\<close> attribute of item \<open>i\<close> into the input (the
  empty string when the item has no such attribute, as assigning \<^verbatim>\<open>null\<close> does),
  empties the display surface, and the state is \<open>Idle\<close> again. Enter never throws.
\<close>

theorem enter_commits_or_ignores:
  "(Idle w \<longrightarrow> selectionController 13 w = Inr w) \<and>
   (\<forall>i. Highlighted i w \<longrightarrow>
      selectionController 13 w =
        Inr (w\<lparr>inputValue := (case valueAttr (taxi w ! i) of None \<Rightarrow> [] | Some v \<Rightarrow> v),
                taxi := []\<rparr>) \<and>
      Idle (documentAfter (selectionController 13 w))) \<and>
   (\<exists>w'. selectionController 13 w = Inr w') \<and>
   handleKeyDown opts 13 w =
     (if hasMinChar opts w then selectionController 13 w else Inr (clearInnerHTML w))"
proof (intro conjI allI impI)
  assume "Idle w"
  then have q: "querySelector (taxi w) = None" by (simp add: Idle_def)
  then have "map toggleMatching (taxi w) = taxi w" by (rule cleaned_id)
  with q show "selectionController 13 w = Inr w"
    by (simp add: selectionController_def Let_def)
next
  fix i assume "Highlighted i w"
  then have q: "querySelector (taxi w) = Some [i]" by (simp add: Highlighted_def)
  then have i: "i < length (taxi w)" by (rule querySelector_bound)
  then have "nodeAt (map toggleMatching (taxi w)) [i] = Some (toggleMatching (taxi w ! i))"
    by simp
  with q show r: "selectionController 13 w =
      Inr (w\<lparr>inputValue := (case valueAttr (taxi w ! i) of None \<Rightarrow> [] | Some v \<Rightarrow> v),
              taxi := []\<rparr>)"
    by (simp add: selectionController_def Let_def clearInnerHTML_def valueAttr_toggleMatching)
  show "Idle (documentAfter (selectionController 13 w))"
    unfolding r by (simp add: Idle_def querySelector_def)
next
  show "\<exists>w'. selectionController 13 w = Inr w'"
  proof (cases "querySelector (taxi w)")
    case None
    then show ?thesis by (simp add: selectionController_def Let_def)
  next
    case (Some q)
    then obtain el where "nodeAt (map toggleMatching (taxi w)) q = Some el"
      using nodeAt_selected [of "taxi w" q] by auto
    with Some show ?thesis by (simp add: selectionController_def Let_def)
  qed
next
  show "handleKeyDown opts 13 w =
     (if hasMinChar opts w then selectionController 13 w else Inr (clearInnerHTML w))"
    by (simp add: handleKeyDown_controller actionCodes_def)
qed

text \<open>
  Enter on the example cards: nothing happens while nothing is highlighted; with card 1
  highlighted the input receives its value and the display surface is left empty.
\<close>

theorem enter_commits_or_ignores_witness:
  "Idle exampleWidget \<and>
   handleKeyDown TaxiOptionsDefaults 13 exampleWidget = Inr exampleWidget \<and>
   Highlighted 1 (highlightedWidget 1) \<and>
   handleKeyDown TaxiOptionsDefaults 13 (highlightedWidget 1) =
     Inr \<lparr>inputValue = ''Mercedes'', taxi = []\<rparr>"
proof -
  have g: "hasMinChar TaxiOptionsDefaults exampleWidget" by code_simp
  have i: "Idle exampleWidget" by code_simp
  have g1: "hasMinChar TaxiOptionsDefaults (highlightedWidget 1)" by code_simp
  have h1: "Highlighted 1 (highlightedWidget 1)" by code_simp
  have v: "(highlightedWidget 1)\<lparr>inputValue :=
              (case valueAttr (taxi (highlightedWidget 1) ! 1) of None \<Rightarrow> [] | Some v \<Rightarrow> v),
            taxi := []\<rparr> = \<lparr>inputValue = ''Mercedes'', taxi = []\<rparr>"
    by code_simp
  from enter_commits_or_ignores [of exampleWidget TaxiOptionsDefaults] i g
  have a: "handleKeyDown TaxiOptionsDefaults 13 exampleWidget = Inr exampleWidget"
    by simp
  from enter_commits_or_ignores [of "highlightedWidget 1" TaxiOptionsDefaults] h1 g1
  have "handleKeyDown TaxiOptionsDefaults 13 (highlightedWidget 1) =
     Inr ((highlightedWidget 1)\<lparr>inputValue :=
              (case valueAttr (taxi (highlightedWidget 1) ! 1) of None \<Rightarrow> [] | Some v \<Rightarrow> v),
            taxi := []\<rparr>)"
    by simp
  with v have b: "handleKeyDown TaxiOptionsDefaults 13 (highlightedWidget 1) =
     Inr \<lparr>inputValue = ''Mercedes'', taxi = []\<rparr>"
    by simp
  from i a h1 b show ?thesis by blast
qed

text \<open>
  Claim C9. With an empty RenderedList and the minimum length reached, a down (40), tab
  (9) or up (38) keydown throws: the current index is -1, \<open>nextIndex\<close> is -1 and
  \<open>prevIndex\<close> is 0, neither is an index of the empty child collection, and
  reading \<^verbatim>\<open>classList\<close> of the missing child is a \<^verbatim>\<open>TypeError\<close>. The handler does not
  return, so the key press is no silent no-op; the document is as before.
\<close>

theorem navigation_throws_on_empty_list:
  assumes gate: "hasMinChar opts w" and empty: "taxi w = []"
    and key: "which = 40 \<or> which = 9 \<or> which = 38"
  shows "handleKeyDown opts which w = Inl (TypeError, w) \<and>
         selectionController which w = Inl (TypeError, w) \<and>
         indexOf (querySelector (taxi w)) = - 1 \<and>
         nextIndex (- 1) (int (length (taxi w))) = - 1 \<and>
         prevIndex (- 1) = 0 \<and>
         toggleChild (- 1) (taxi w) = Inl TypeError \<and>
         toggleChild 0 (taxi w) = Inl TypeError"
proof -
  have "w\<lparr>taxi := []\<rparr> = w" using empty by simp
  then show ?thesis
    using gate empty key
    by (auto simp: handleKeyDown_def selectionController_def actionCodes_def Let_def
        querySelector_def nextIndex_def prevIndex_def toggleChild_def)
qed

text \<open>Down and up on the widget that shows no card.\<close>

theorem navigation_throws_on_empty_list_witness:
  "hasMinChar TaxiOptionsDefaults emptyWidget \<and> taxi emptyWidget = [] \<and>
   handleKeyDown TaxiOptionsDefaults 40 emptyWidget = Inl (TypeError, emptyWidget) \<and>
   handleKeyDown TaxiOptionsDefaults 38 emptyWidget = Inl (TypeError, emptyWidget)"
proof -
  have g: "hasMinChar TaxiOptionsDefaults emptyWidget" by code_simp
  have e: "taxi emptyWidget = []" by code_simp
  from navigation_throws_on_empty_list [OF g e, of 40]
  have a: "handleKeyDown TaxiOptionsDefaults 40 emptyWidget = Inl (TypeError, emptyWidget)"
    by simp
  from navigation_throws_on_empty_list [OF g e, of 38]
  have b: "handleKeyDown TaxiOptionsDefaults 38 emptyWidget = Inl (TypeError, emptyWidget)"
    by simp
  from g e a b show ?thesis by blast
qed

subsection \<open>The marker invariant\<close>

text \<open>
  What the controller leaves on the display surface: nothing, the cleaned items, or the
  cleaned items with one of them toggled.
\<close>

lemma selectionController_document:
  "taxi (documentAfter (selectionController which w)) = [] \<or>
   taxi (documentAfter (selectionController which w)) = map toggleMatching (taxi w) \<or>
   (\<exists>k. toggleChild k (map toggleMatching (taxi w)) =
          Inr (taxi (documentAfter (selectionController which w))))"
proof -
  let ?cl = "map toggleMatching (taxi w)"
  let ?next = "nextIndex (indexOf (querySelector (taxi w))) (int (length (taxi w)))"
  let ?prev = "prevIndex (indexOf (querySelector (taxi w)))"
  consider "which = 40" | "which = 9" | "which = 38" | "which = 13"
    | "which \<noteq> 40 \<and> which \<noteq> 9 \<and> which \<noteq> 38 \<and> which \<noteq> 13"
    by blast
  then show ?thesis
  proof cases
    case 1
    then show ?thesis
      by (cases "toggleChild ?next ?cl") (auto simp: selectionController_def Let_def)
  next
    case 2
    then show ?thesis
      by (cases "toggleChild ?next ?cl") (auto simp: selectionController_def Let_def)
  next
    case 3
    then show ?thesis
      by (cases "toggleChild ?prev ?cl") (auto simp: selectionController_def Let_def)
  next
    case 4
    then show ?thesis
      by (simp add: selectionController_def Let_def clearInnerHTML_def split: option.splits)
  next
    case 5
    then show ?thesis by (simp add: selectionController_def Let_def)
  qed
qed

lemma selectionController_count:
  "sum_list (map countMatching (taxi (documentAfter (selectionController which w)))) \<le> 1"
  using selectionController_document [of which w]
proof (elim disjE exE)
  assume "taxi (documentAfter (selectionController which w)) = []"
  then show ?thesis by simp
next
  assume a: "taxi (documentAfter (selectionController which w)) = map toggleMatching (taxi w)"
  show ?thesis unfolding a cleaned_count by simp
next
  fix k
  assume "toggleChild k (map toggleMatching (taxi w)) =
            Inr (taxi (documentAfter (selectionController which w)))"
  then show ?thesis by (rule toggleChild_cleaned_count)
qed

lemma handleKeyDown_count:
  assumes "which \<in> set actionCodes"
  shows "sum_list (map countMatching (taxi (documentAfter (handleKeyDown opts which w)))) \<le> 1"
proof (cases "hasMinChar opts w")
  case True
  with assms show ?thesis
    using selectionController_count [of which w] by (simp add: handleKeyDown_controller)
next
  case False
  then show ?thesis by (simp add: handleKeyDown_def clearInnerHTML_def)
qed

text \<open>
  Claim C4. After every navigation key (down, up, tab, enter), at most one rendered item
  carries the marker \<^verbatim>\<open>is-selected\<close>, whatever the display surface looked like before
  and whether the call returned or threw: the clean-up removes every marker, and at
  most one item is toggled afterwards. This holds for the selection controller and for
  \<^verbatim>\<open>handleKeyDown\<close> as a whole, and the same bound holds for the marker counted through
  all descendants of the display surface.
\<close>

theorem at_most_one_marker:
  "length (selectedItems (taxi (documentAfter (selectionController which w)))) \<le> 1 \<and>
   sum_list (map countMatching (taxi (documentAfter (selectionController which w)))) \<le> 1 \<and>
   (which \<in> set actionCodes \<longrightarrow>
      length (selectedItems (taxi (documentAfter (handleKeyDown opts which w)))) \<le> 1 \<and>
      sum_list (map countMatching (taxi (documentAfter (handleKeyDown opts which w)))) \<le> 1)"
proof -
  have "length (selectedItems (taxi (documentAfter (selectionController which w)))) \<le> 1"
    using selectionController_count [of which w]
      selectedItems_le_countMatching [of "taxi (documentAfter (selectionController which w))"]
    by linarith
  moreover have
    "length (selectedItems (taxi (documentAfter (handleKeyDown opts which w)))) \<le> 1"
    if "which \<in> set actionCodes"
    using handleKeyDown_count [OF that, of opts w]
      selectedItems_le_countMatching [of "taxi (documentAfter (handleKeyDown opts which w))"]
    by linarith
  ultimately show ?thesis
    using selectionController_count [of which w] handleKeyDown_count [of which opts w]
    by blast
qed

text \<open>Down on a display surface whose three cards all carry the marker.\<close>

theorem at_most_one_marker_witness:
  "40 \<in> set actionCodes \<and>
   length (selectedItems (taxi allMarkedWidget)) = 3 \<and>
   length (selectedItems
     (taxi (documentAfter (handleKeyDown TaxiOptionsDefaults 40 allMarkedWidget)))) \<le> 1"
proof -
  have k: "40 \<in> set actionCodes" by code_simp
  have l: "length (selectedItems (taxi allMarkedWidget)) = 3" by code_simp
  from at_most_one_marker [of 40 allMarkedWidget TaxiOptionsDefaults] k l
  show ?thesis by blast
qed

section \<open>The query predicates\<close>

subsection \<open>fuzzy\<close>

lemma fuzzyLoop_snd:
  "snd (fuzzyLoop r rl q n sp m) =
     m @ map (\<lambda>k. if k < length r then Some (r ! k) else None) [n..<length rl]"
proof (induction r rl q n sp m rule: fuzzyLoop.induct)
  case (1 r rl q n sp m)
  show ?case
  proof (cases "n < length rl")
    case True
    then show ?thesis
      using "1.IH" [OF True refl refl]
      by (subst fuzzyLoop.simps) (simp add: Let_def upt_conv_Cons)
  next
    case False
    then show ?thesis by (subst fuzzyLoop.simps) simp
  qed
qed

lemma fuzzyLoop_fst:
  "sp \<le> length q \<Longrightarrow>
   (fst (fuzzyLoop r rl q n sp m) = length q) = subseq (drop sp q) (drop n rl)"
proof (induction r rl q n sp m rule: fuzzyLoop.induct)
  case (1 r rl q n sp m)
  show ?case
  proof (cases "n < length rl")
    case False
    then have "drop n rl = []" by simp
    then have "subseq (drop sp q) (drop n rl) \<longleftrightarrow> drop sp q = []"
      by (cases "drop sp q") simp_all
    also have "\<dots> \<longleftrightarrow> sp = length q"
      using "1.prems" by auto
    finally show ?thesis
      using False by (subst fuzzyLoop.simps) simp
  next
    case True
    let ?sp' = "if sp < length q \<and> rl ! n = q ! sp then sp + 1 else sp"
    have le: "?sp' \<le> length q" using "1.prems" by auto
    have IH: "(fst (fuzzyLoop r rl q (n + 1) ?sp'
                 (m @ [if n < length r then Some (r ! n) else None])) = length q)
              = subseq (drop ?sp' q) (drop (n + 1) rl)"
      using "1.IH" [OF True refl refl le] .
    have unfold: "fuzzyLoop r rl q n sp m =
        fuzzyLoop r rl q (n + 1) ?sp' (m @ [if n < length r then Some (r ! n) else None])"
      using True by (subst fuzzyLoop.simps) (simp add: Let_def)
    have rl: "drop n rl = rl ! n # drop (n + 1) rl"
      using True by (simp add: Cons_nth_drop_Suc)
    show ?thesis
    proof (cases "sp < length q")
      case lt: True
      then have q: "drop sp q = q ! sp # drop (sp + 1) q"
        by (simp add: Cons_nth_drop_Suc)
      show ?thesis
      proof (cases "rl ! n = q ! sp")
        case True
        with lt have "?sp' = sp + 1" by simp
        with IH have "(fst (fuzzyLoop r rl q n sp m) = length q)
                        = subseq (drop (sp + 1) q) (drop (n + 1) rl)"
          by (simp add: unfold)
        also have "\<dots> = subseq (drop sp q) (drop n rl)"
          by (subst rl, subst q) (simp add: True)
        finally show ?thesis .
      next
        case False
        then have "?sp' = sp" by simp
        with IH have "(fst (fuzzyLoop r rl q n sp m) = length q)
                        = subseq (drop sp q) (drop (n + 1) rl)"
          by (simp add: unfold)
        also have "\<dots> = subseq (q ! sp # drop (sp + 1) q) (drop (n + 1) rl)"
          by (subst q) (rule refl)
        also have "\<dots> = subseq (q ! sp # drop (sp + 1) q) (rl ! n # drop (n + 1) rl)"
          using False by simp
        also have "\<dots> = subseq (drop sp q) (drop n rl)"
          by (subst rl, subst q) (rule refl)
        finally show ?thesis .
      qed
    next
      case False
      with "1.prems" have "sp = length q" by simp
      then show ?thesis
        unfolding unfold IH by simp
    qed
  qed
qed

lemma length_toLowerCase: "length (toLowerCase s) = length s"
  by (simp add: toLowerCase_def)

lemma joinEmpty_Some: "joinEmpty (map Some s) = s"
  by (induction s) (simp_all add: joinEmpty_def)

lemma fuzzy_match_rebuilds:
  "joinEmpty (snd (fuzzyLoop s (toLowerCase s) q 0 0 [])) = s"
proof -
  have "map (\<lambda>k. if k < length s then Some (s ! k) else None) [0..<length s] = map Some s"
    by (rule nth_equalityI) simp_all
  then show ?thesis
    by (simp add: fuzzyLoop_snd length_toLowerCase joinEmpty_Some)
qed

lemma stripSpaces_replicate: "stripSpaces (toLowerCase (replicate n (CHR '' ''))) = []"
  by (induction n) (simp_all add: stripSpaces_def toLowerCase_def lowerChar_def)

lemma fuzzy_examples:
  "fuzzy ''Volkswagen'' ''vw'' = JString ''Volkswagen'' \<and>
   fuzzy ''Volkswagen'' ''wv'' = JUndefined"
  by code_simp

text \<open>
  Claim C5. For every record \<open>s\<close> and query \<open>q\<close>, \<^verbatim>\<open>fuzzy\<close> returns the record itself
  when the characters of the lower-cased query without its spaces occur in that order
  (not necessarily next to each other) in the lower-cased record, and \<^verbatim>\<open>undefined\<close>
  otherwise. A query of spaces only, the empty query included, matches every record.
  \<^verbatim>\<open>fuzzy("Volkswagen", "vw")\<close> matches and \<^verbatim>\<open>fuzzy("Volkswagen", "wv")\<close> does not.
\<close>

theorem fuzzy_subsequence:
  "fuzzy s q =
     (if subseq (stripSpaces (toLowerCase q)) (toLowerCase s) then JString s else JUndefined)
   \<and> fuzzy s (replicate n (CHR '' '')) = JString s
   \<and> fuzzy ''Volkswagen'' ''vw'' = JString ''Volkswagen''
   \<and> fuzzy ''Volkswagen'' ''wv'' = JUndefined"
proof -
  have main: "fuzzy s q =
     (if subseq (stripSpaces (toLowerCase q)) (toLowerCase s) then JString s else JUndefined)"
    for q
    using fuzzyLoop_fst [of 0 "stripSpaces (toLowerCase q)" s "toLowerCase s" 0 "[]"]
      fuzzy_match_rebuilds [of s "stripSpaces (toLowerCase q)"]
    by (auto simp: fuzzy_def Let_def case_prod_unfold)
  show ?thesis
    using main [of q] main [of "replicate n (CHR '' '')"] fuzzy_examples
    by (simp add: stripSpaces_replicate)
qed

subsection \<open>strict\<close>

lemma includesStr_sublist: "includesStr s q \<longleftrightarrow> sublist q s"
  by (induction s) (simp_all add: sublist_Cons_right)

text \<open>
  Claim C6. For every dataset and every query \<open>q\<close>, the filter of \<^verbatim>\<open>handleKeyUp\<close> with
  the \<^verbatim>\<open>strict\<close> predicate keeps exactly the entries whose lower-cased form contains
  the lower-cased \<open>q\<close> as a substring, each as often as it occurs and in the order of
  the dataset.
\<close>

theorem strict_filter_substring:
  "filtered (opts\<lparr>query := strict\<rparr>) q =
     filter (\<lambda>d. \<exists>ps ss. toLowerCase d = ps @ toLowerCase q @ ss) (data opts)"
  by (simp add: filtered_def strict_def includesStr_sublist sublist_def)

section \<open>The minimum-length gate\<close>

lemma length_trim: "length (trim s) \<le> length s"
proof -
  have "length (dropWhile isWhiteSpace (rev (dropWhile isWhiteSpace s)))
          \<le> length (rev (dropWhile isWhiteSpace s))"
    by (rule length_dropWhile_le)
  also have "\<dots> \<le> length s" by (simp add: length_dropWhile_le)
  finally show ?thesis by (simp add: trim_def)
qed

text \<open>
  Claim C7. \<open>hasMinChar\<close> holds whenever \<open>minChar\<close> is 0, and otherwise exactly when
  the trimmed input is at least \<open>minChar\<close> long. \<^verbatim>\<open>handleKeyUp\<close> asks it before anything
  else and runs the filter pass only when it holds. When it fails, the display surface is
  emptied, by \<^verbatim>\<open>handleKeyUp\<close> and by \<^verbatim>\<open>handleKeyDown\<close> alike, for every key, every
  dataset and every state of the display surface; the \<^verbatim>\<open>handleKeyDown\<close> that goes
  through \<^verbatim>\<open>KeyHandler\<close> does the same for the keys \<^verbatim>\<open>KeyHandler.has\<close> accepts, the only
  ones for which it makes the check. With \<open>minChar = 3\<close> and an input of length 2 the
  check fails and the display surface is emptied.
\<close>

theorem minimum_length_gate:
  "(minChar opts = 0 \<longrightarrow> hasMinChar opts w) \<and>
   (minChar opts \<noteq> 0 \<longrightarrow>
      hasMinChar opts w = (minChar opts \<le> int (length (trim (inputValue w))))) \<and>
   (hasMinChar opts w \<and> which \<notin> set actionCodes \<longrightarrow>
      handleKeyUp parse opts which w =
        setInnerHTML parse
          (joinWith [CHR 0x0A] (map (toHtml opts) (filtered opts (inputValue w)))) w) \<and>
   (\<not> hasMinChar opts w \<longrightarrow>
      handleKeyUp parse opts which w = clearInnerHTML w \<and>
      handleKeyDown opts which w = Inr (clearInnerHTML w) \<and>
      taxi (clearInnerHTML w) = [] \<and>
      (has which \<longrightarrow>
         handleKeyDownKeyHandler has handle opts which w = Inr (clearInnerHTML w))) \<and>
   (minChar opts = 3 \<and> length (inputValue w) = 2 \<longrightarrow>
      \<not> hasMinChar opts w \<and> taxi (handleKeyUp parse opts which w) = [])"
proof -
  have "\<not> hasMinChar opts w" if "minChar opts = 3" "length (inputValue w) = 2"
    using that length_trim [of "inputValue w"] by (simp add: hasMinChar_def)
  then show ?thesis
    by (auto simp: hasMinChar_def handleKeyUp_def handleKeyDown_def handleKeyDownKeyHandler_def
        clearInnerHTML_def Let_def)
qed

text \<open>
  With \<open>minChar = 0\<close> the empty input passes. With \<open>minChar = 3\<close> and the input
  \<^verbatim>\<open>ab\<close> over three shown cards, a keyup of the letter key 65 and a keydown of the down
  key both leave the display surface empty, also under a parser that would render cards.
  With the default options and the input \<^verbatim>\<open>e\<close> the check passes and the keyup of a
  letter key runs the filter pass.
\<close>

theorem minimum_length_gate_witness:
  "minChar (TaxiOptionsDefaults\<lparr>minChar := 0\<rparr>) = 0 \<and>
   hasMinChar (TaxiOptionsDefaults\<lparr>minChar := 0\<rparr>) (shortInputWidget\<lparr>inputValue := []\<rparr>) \<and>
   minChar (TaxiOptionsDefaults\<lparr>minChar := 3\<rparr>) = 3 \<and>
   length (inputValue shortInputWidget) = 2 \<and>
   length (taxi shortInputWidget) = 3 \<and>
   \<not> hasMinChar (TaxiOptionsDefaults\<lparr>minChar := 3\<rparr>) shortInputWidget \<and>
   taxi (handleKeyUp (\<lambda>html. exampleCards) (TaxiOptionsDefaults\<lparr>minChar := 3\<rparr>) 65
           shortInputWidget) = [] \<and>
   handleKeyDown (TaxiOptionsDefaults\<lparr>minChar := 3\<rparr>) 40 shortInputWidget =
     Inr \<lparr>inputValue = ''ab'', taxi = []\<rparr> \<and>
   handleKeyDownKeyHandler (\<lambda>k. k = 40) (\<lambda>k w. Inr w) (TaxiOptionsDefaults\<lparr>minChar := 3\<rparr>) 40
     shortInputWidget = Inr \<lparr>inputValue = ''ab'', taxi = []\<rparr> \<and>
   hasMinChar TaxiOptionsDefaults exampleWidget \<and> 65 \<notin> set actionCodes \<and>
   handleKeyUp (\<lambda>html. exampleCards) TaxiOptionsDefaults 65 exampleWidget =
     setInnerHTML (\<lambda>html. exampleCards)
       (joinWith [CHR 0x0A] (map classic [''Volkwagen'', ''Mercedes'', ''Daimler'']))
       exampleWidget"
proof -
  let ?o0 = "TaxiOptionsDefaults\<lparr>minChar := 0\<rparr>"
  let ?o3 = "TaxiOptionsDefaults\<lparr>minChar := 3\<rparr>"
  let ?p = "\<lambda>html::string. exampleCards"
  have m0: "minChar ?o0 = 0" by simp
  have m3: "minChar ?o3 = 3" by simp
  have l2: "length (inputValue shortInputWidget) = 2" by code_simp
  have l3: "length (taxi shortInputWidget) = 3" by code_simp
  have c: "clearInnerHTML shortInputWidget = \<lparr>inputValue = ''ab'', taxi = []\<rparr>" by code_simp
  have g: "hasMinChar TaxiOptionsDefaults exampleWidget" by code_simp
  have k: "65 \<notin> set actionCodes" by code_simp
  have f: "map (toHtml TaxiOptionsDefaults) (filtered TaxiOptionsDefaults (inputValue exampleWidget))
             = map classic [''Volkwagen'', ''Mercedes'', ''Daimler'']"
    by code_simp
  let ?has = "\<lambda>k::nat. k = 40"
  let ?handle = "\<lambda>(k::nat) (w::widget). (Inr w :: error \<times> widget + widget)"
  from minimum_length_gate [of ?o0 "shortInputWidget\<lparr>inputValue := []\<rparr>" 65 ?p ?has ?handle]
    m0
  have a: "hasMinChar ?o0 (shortInputWidget\<lparr>inputValue := []\<rparr>)" by simp
  from minimum_length_gate [of ?o3 shortInputWidget 65 ?p ?has ?handle] m3 l2
  have b: "\<not> hasMinChar ?o3 shortInputWidget \<and> taxi (handleKeyUp ?p ?o3 65 shortInputWidget) = []"
    by blast
  from minimum_length_gate [of ?o3 shortInputWidget 40 ?p ?has ?handle] b c
  have d: "handleKeyDown ?o3 40 shortInputWidget = Inr \<lparr>inputValue = ''ab'', taxi = []\<rparr> \<and>
           handleKeyDownKeyHandler (\<lambda>k. k = 40) (\<lambda>k w. Inr w) ?o3 40 shortInputWidget =
             Inr \<lparr>inputValue = ''ab'', taxi = []\<rparr>"
    by simp
  from minimum_length_gate [of TaxiOptionsDefaults exampleWidget 65 ?p ?has ?handle] g k f
  have e: "handleKeyUp ?p TaxiOptionsDefaults 65 exampleWidget =
     setInnerHTML ?p
       (joinWith [CHR 0x0A] (map classic [''Volkwagen'', ''Mercedes'', ''Daimler'']))
       exampleWidget"
    by simp
  from m0 a m3 l2 l3 b d g k e show ?thesis by blast
qed

section \<open>Repeated down presses\<close>

lemma down_step:
  assumes ne: "taxi w \<noteq> []"
  shows "\<exists>w'. selectionController 40 w = Inr w' \<and> inputValue w' = inputValue w \<and>
           length (taxi w') = length (taxi w) \<and>
           querySelector (taxi w') =
             Some [nat (min (indexOf (querySelector (taxi w)) + 1) (int (length (taxi w)) - 1))]"
proof -
  from step_next [OF ne, of 40] obtain w' where
    w': "selectionController 40 w = Inr w'" and iv: "inputValue w' = inputValue w"
    and va: "map valueAttr (taxi w') = map valueAttr (taxi w)"
    and qs: "querySelector (taxi w') =
       Some [nat (min (indexOf (querySelector (taxi w)) + 1) (int (length (taxi w)) - 1))]"
    by blast
  from va have "length (taxi w') = length (taxi w)" by (rule map_eq_imp_length_eq)
  with w' iv qs show ?thesis by blast
qed

lemma downs_from_highlighted:
  "Highlighted i w \<Longrightarrow>
   \<exists>w'. selections (replicate n 40) w = Inr w' \<and> inputValue w' = inputValue w \<and>
         Highlighted (min (i + n) (length (taxi w) - 1)) w'"
proof (induction n arbitrary: w i)
  case 0
  then have "i < length (taxi w)" by (simp add: Highlighted_nonempty)
  then have "min i (length (taxi w) - 1) = i" by simp
  with 0 show ?case by simp
next
  case (Suc n)
  from Suc.prems have il: "i < length (taxi w)" by (simp add: Highlighted_nonempty)
  then have ne: "taxi w \<noteq> []" by auto
  from Suc.prems have c: "indexOf (querySelector (taxi w)) = int i"
    by (simp add: Highlighted_def)
  from down_step [OF ne] obtain w1 where
    s1: "selectionController 40 w = Inr w1" and i1: "inputValue w1 = inputValue w"
    and l1: "length (taxi w1) = length (taxi w)"
    and q1: "querySelector (taxi w1) =
       Some [nat (min (indexOf (querySelector (taxi w)) + 1) (int (length (taxi w)) - 1))]"
    by blast
  have "nat (min (int i + 1) (int (length (taxi w)) - 1)) = min (i + 1) (length (taxi w) - 1)"
    using il by linarith
  with q1 c have h1: "Highlighted (min (i + 1) (length (taxi w) - 1)) w1"
    by (simp add: Highlighted_def)
  from Suc.IH [OF h1] obtain w' where
    r: "selections (replicate n 40) w1 = Inr w'" and i': "inputValue w' = inputValue w1" and
    h: "Highlighted (min (min (i + 1) (length (taxi w) - 1) + n) (length (taxi w1) - 1)) w'"
    by blast
  have "min (min (i + 1) (length (taxi w) - 1) + n) (length (taxi w1) - 1)
          = min (i + Suc n) (length (taxi w) - 1)"
    unfolding l1 by linarith
  with h have "Highlighted (min (i + Suc n) (length (taxi w) - 1)) w'" by simp
  moreover have "selections (replicate (Suc n) 40) w = Inr w'"
    using s1 r by simp
  moreover from i' i1 have "inputValue w' = inputValue w" by simp
  ultimately show ?case by blast
qed

lemma selectionController_down_input:
  "selectionController 40 w = Inr w' \<Longrightarrow> inputValue w' = inputValue w"
  by (auto simp: selectionController_def Let_def split: sum.splits)

text \<open>
  While the minimum length is reached, the handler passes every down press on to the
  controller; while it is not, every press empties the display surface.
\<close>

lemma keyDowns_selections:
  "hasMinChar opts w \<Longrightarrow>
   keyDowns opts (replicate n 40) w = selections (replicate n 40) w"
proof (induction n arbitrary: w)
  case 0
  then show ?case by simp
next
  case (Suc n)
  have k: "40 \<in> set actionCodes" by (simp add: actionCodes_def)
  from Suc.prems have h: "handleKeyDown opts 40 w = selectionController 40 w"
    by (simp add: handleKeyDown_controller [OF k])
  show ?case
  proof (cases "selectionController 40 w")
    case (Inl ew)
    with h show ?thesis by simp
  next
    case (Inr w1)
    then have "inputValue w1 = inputValue w" by (rule selectionController_down_input)
    then have "hasMinChar opts w1 = hasMinChar opts w" by (rule hasMinChar_cong)
    with Suc.prems have "hasMinChar opts w1" by simp
    then have "keyDowns opts (replicate n 40) w1 = selections (replicate n 40) w1"
      by (rule Suc.IH)
    with h Inr show ?thesis by simp
  qed
qed

lemma keyDowns_gate_fails:
  "\<not> hasMinChar opts w \<Longrightarrow> keyDowns opts (replicate (Suc n) k) w = Inr (clearInnerHTML w)"
proof (induction n arbitrary: w)
  case 0
  then show ?case by (simp add: handleKeyDown_def)
next
  case (Suc n)
  from Suc.prems have h: "handleKeyDown opts k w = Inr (clearInnerHTML w)"
    by (simp add: handleKeyDown_def)
  have "inputValue (clearInnerHTML w) = inputValue w" by (simp add: clearInnerHTML_def)
  then have "hasMinChar opts (clearInnerHTML w) = hasMinChar opts w" by (rule hasMinChar_cong)
  with Suc.prems have "\<not> hasMinChar opts (clearInnerHTML w)" by simp
  then have "keyDowns opts (replicate (Suc n) k) (clearInnerHTML w) =
      Inr (clearInnerHTML (clearInnerHTML w))"
    by (rule Suc.IH)
  moreover have "clearInnerHTML (clearInnerHTML w) = clearInnerHTML w"
    by (simp add: clearInnerHTML_def)
  ultimately show ?case using h by simp
qed

text \<open>
  Claim C8, as stated: after \<open>N \<ge> 1\<close> down presses from \<open>Idle\<close> over three rendered
  items the highlighted index is \<open>min N 2\<close>. One press over the three example cards
  highlights card 0, not card 1.
\<close>

theorem downs_from_idle_counterexample:
  "hasMinChar TaxiOptionsDefaults exampleWidget \<and> Idle exampleWidget \<and>
   length (taxi exampleWidget) = 3 \<and>
   keyDowns TaxiOptionsDefaults (replicate 1 40) exampleWidget = Inr (highlightedWidget 0) \<and>
   selections (replicate 1 40) exampleWidget = Inr (highlightedWidget 0) \<and>
   Highlighted 0 (highlightedWidget 0) \<and>
   \<not> Highlighted (min 1 2) (highlightedWidget 0)"
  by code_simp

text \<open>
  Claim C8, amended: after \<open>N \<ge> 1\<close> consecutive down (40) presses starting from
  \<open>Idle\<close> over a RenderedList of length 3, every press returns and the highlighted
  index is \<open>min (N - 1) 2\<close>: the first press highlights item 0. That is what the
  controller does with the presses, and what \<^verbatim>\<open>handleKeyDown\<close> does with them when the
  minimum length is reached; when it is not, the display surface is emptied.
\<close>

theorem downs_from_idle:
  assumes idle: "Idle w" and len: "length (taxi w) = 3" and n: "1 \<le> N"
  shows "\<exists>w'. selections (replicate N 40) w = Inr w' \<and>
           keyDowns opts (replicate N 40) w =
             (if hasMinChar opts w then Inr w' else Inr (clearInnerHTML w)) \<and>
           Highlighted (min (N - 1) 2) w'"
proof -
  from n obtain n' where N: "N = Suc n'" by (cases N) simp_all
  from len have ne: "taxi w \<noteq> []" by (cases "taxi w") simp_all
  from idle have c: "indexOf (querySelector (taxi w)) = - 1" by (simp add: Idle_def)
  from down_step [OF ne] obtain w1 where
    s1: "selectionController 40 w = Inr w1"
    and l1: "length (taxi w1) = length (taxi w)"
    and q1: "querySelector (taxi w1) =
       Some [nat (min (indexOf (querySelector (taxi w)) + 1) (int (length (taxi w)) - 1))]"
    by blast
  from q1 have h1: "Highlighted 0 w1"
    unfolding c len by (simp add: Highlighted_def)
  from downs_from_highlighted [OF h1, of n'] obtain w' where
    r: "selections (replicate n' 40) w1 = Inr w'" and
    h: "Highlighted (min (0 + n') (length (taxi w1) - 1)) w'"
    by blast
  from h have hl: "Highlighted (min (N - 1) 2) w'"
    unfolding l1 len N by simp
  have sel: "selections (replicate N 40) w = Inr w'"
    unfolding N using s1 r by simp
  have "keyDowns opts (replicate N 40) w =
          (if hasMinChar opts w then Inr w' else Inr (clearInnerHTML w))"
  proof (cases "hasMinChar opts w")
    case True
    then show ?thesis using keyDowns_selections [of opts w N] sel by simp
  next
    case False
    then have "keyDowns opts (replicate (Suc n') 40) w = Inr (clearInnerHTML w)"
      by (rule keyDowns_gate_fails)
    with False show ?thesis unfolding N by simp
  qed
  with sel hl show ?thesis by blast
qed

text \<open>Two presses over the example cards highlight card 1, five presses card 2.\<close>

theorem downs_from_idle_witness:
  "Idle exampleWidget \<and> length (taxi exampleWidget) = 3 \<and>
   (\<exists>w'. keyDowns TaxiOptionsDefaults (replicate 2 40) exampleWidget = Inr w' \<and>
         Highlighted 1 w') \<and>
   (\<exists>w'. keyDowns TaxiOptionsDefaults (replicate 5 40) exampleWidget = Inr w' \<and>
         Highlighted 2 w')"
proof -
  have g: "hasMinChar TaxiOptionsDefaults exampleWidget" by code_simp
  have i: "Idle exampleWidget" by code_simp
  have l: "length (taxi exampleWidget) = 3" by code_simp
  from downs_from_idle [OF i l, of 2 TaxiOptionsDefaults] g
  have a: "\<exists>w'. keyDowns TaxiOptionsDefaults (replicate 2 40) exampleWidget = Inr w' \<and>
                Highlighted 1 w'"
    by auto
  from downs_from_idle [OF i l, of 5 TaxiOptionsDefaults] g
  have b: "\<exists>w'. keyDowns TaxiOptionsDefaults (replicate 5 40) exampleWidget = Inr w' \<and>
                Highlighted 2 w'"
    by auto
  from i l a b show ?thesis by blast
qed

end
